theory Spec2Isabelle
  imports Main
begin

section \<open>Elementary cellular automata: the rule table and the pattern generator\<close>

text \<open>
  The two notebooks of the repository share three functions: \<open>window\<close>, \<open>get_rule\<close>
  and \<open>generate_pattern\<close>. A state is a Python string of the characters 0 and 1, a rule
  is a dictionary from three-character strings to one-character strings. Python integers
  are unbounded and are modelled by \<open>int\<close>; an exception is a value of type \<open>error\<close>.
\<close>

datatype error = KeyError string | IndexError

type_synonym rule = "string \<rightharpoonup> string"

subsection \<open>Binary formatting: the format specifications 08b and 03b\<close>

text \<open>The character of one binary digit.\<close>

definition bit_char :: "bool \<Rightarrow> char" where
  "bit_char b = (if b then CHR ''1'' else CHR ''0'')"

text \<open>The binary digits of a natural number, most significant first; zero is one digit.\<close>

fun bin_digits :: "nat \<Rightarrow> string" where
  "bin_digits n = (if n < 2 then [bit_char (odd n)]
                   else bin_digits (n div 2) @ [bit_char (odd n)])"

declare bin_digits.simps [simp del]

text \<open>
  Python's \<open>format(n, '0Wb')\<close>: the sign of a negative number first, then zeros up to
  the width \<open>W\<close> (the sign counts towards the width), then the binary digits of the
  absolute value. A number with more digits than the width is not cut.
\<close>

definition format_b :: "nat \<Rightarrow> int \<Rightarrow> string" where
  "format_b width n =
     (let sign = (if n < 0 then ''-'' else '''');
          digits = bin_digits (nat \<bar>n\<bar>)
      in sign @ replicate (width - length sign - length digits) (CHR ''0'') @ digits)"

subsection \<open>\<open>get_rule\<close>\<close>

text \<open>Indexing a string with a non-negative index: a one-character string, or IndexError.\<close>

definition getitem :: "string \<Rightarrow> nat \<Rightarrow> error + string" where
  "getitem s i = (if i < length s then Inr [s ! i] else Inl IndexError)"

text \<open>
  The dictionary comprehension \<open>{f"{i:03b}": rule_number[i] for i in range(8)}\<close>:
  the entries are stored in the order of the indices, a later entry replacing an earlier
  one with the same key.
\<close>

fun rule_entries :: "string \<Rightarrow> nat list \<Rightarrow> rule \<Rightarrow> error + rule" where
  "rule_entries rule_number [] m = Inr m"
| "rule_entries rule_number (i # is) m =
     (case getitem rule_number i of
        Inl e \<Rightarrow> Inl e
      | Inr v \<Rightarrow> rule_entries rule_number is (m(format_b 3 (int i) \<mapsto> v)))"

definition get_rule :: "int \<Rightarrow> error + rule" where
  "get_rule n =
     (let rule_number = rev (format_b 8 n)
      in rule_entries rule_number [0..<8] Map.empty)"

subsection \<open>\<open>window\<close> and \<open>generate_pattern\<close>\<close>

text \<open>
  \<open>window\<close> yields the slices \<open>iterable[i:i + stride]\<close> for \<open>i\<close> in
  \<open>range(len(iterable) - stride + 1)\<close>; the range is empty when its bound is not
  positive, which the truncating subtraction of \<open>nat\<close> gives as well.
\<close>

definition window :: "'a list \<Rightarrow> nat \<Rightarrow> 'a list list" where
  "window iterable stride =
     map (\<lambda>i. take stride (drop i iterable)) [0..<length iterable + 1 - stride]"

text \<open>
  The generator \<open>rule[pat] for pat in patterns\<close>, consumed from the left: the first
  pattern that is not a key of the dictionary raises KeyError.
\<close>

fun lookup_each :: "rule \<Rightarrow> string list \<Rightarrow> error + string list" where
  "lookup_each rule [] = Inr []"
| "lookup_each rule (pat # patterns) =
     (case rule pat of
        None \<Rightarrow> Inl (KeyError pat)
      | Some v \<Rightarrow>
          (case lookup_each rule patterns of
             Inl e \<Rightarrow> Inl e
           | Inr vs \<Rightarrow> Inr (v # vs)))"

text \<open>
  The body of the loop of \<open>generate_pattern\<close>: the windows of the state, the join of
  their successors, and a 0 on either side.
\<close>

definition next_state :: "rule \<Rightarrow> string \<Rightarrow> error + string" where
  "next_state rule state =
     (case lookup_each rule (window state 3) of
        Inl e \<Rightarrow> Inl e
      | Inr vs \<Rightarrow> Inr (''0'' @ concat vs @ ''0''))"

text \<open>
  The loop \<open>for gen in range(max_gen)\<close>, with the number of iterations left, the current
  state and the list \<open>states\<close> built so far.
\<close>

fun generate_loop :: "rule \<Rightarrow> nat \<Rightarrow> string \<Rightarrow> string list \<Rightarrow> error + string list" where
  "generate_loop rule 0 state states = Inr states"
| "generate_loop rule (Suc gens) state states =
     (case next_state rule state of
        Inl e \<Rightarrow> Inl e
      | Inr state' \<Rightarrow> generate_loop rule gens state' (states @ [state']))"

text \<open>
  \<open>range(max_gen)\<close> is empty for a negative \<open>max_gen\<close>: the loop runs
  \<open>nat max_gen\<close> times.
\<close>

definition generate_pattern :: "string \<Rightarrow> rule \<Rightarrow> int \<Rightarrow> error + string list" where
  "generate_pattern state rule max_gen = generate_loop rule (nat max_gen) state [state]"

subsection \<open>The text notebook\<close>

text \<open>
  The text notebook has the same \<open>window\<close> and \<open>get_rule\<close>. Its
  \<open>generate_pattern\<close> calls \<open>print_pattern(state)\<close> at the start of each
  iteration and once after the loop, and returns nothing. The model records the arguments
  of these calls in order, and the exception that ended the run, if there was one.
\<close>

fun print_loop ::
  "rule \<Rightarrow> nat \<Rightarrow> string \<Rightarrow> string list \<Rightarrow> string list \<times> error option" where
  "print_loop rule 0 state printed = (printed @ [state], None)"
| "print_loop rule (Suc gens) state printed =
     (case next_state rule state of
        Inl e \<Rightarrow> (printed @ [state], Some e)
      | Inr state' \<Rightarrow> print_loop rule gens state' (printed @ [state]))"

definition generate_pattern_text ::
  "string \<Rightarrow> rule \<Rightarrow> int \<Rightarrow> string list \<times> error option" where
  "generate_pattern_text init_state rule max_gen = print_loop rule (nat max_gen) init_state []"

subsection \<open>The vocabulary of the specification\<close>

text \<open>A configuration is a sequence of the two symbols.\<close>

definition configuration :: "string \<Rightarrow> bool" where
  "configuration state = list_all (\<lambda>c. c = CHR ''0'' \<or> c = CHR ''1'') state"

text \<open>The eight neighbourhoods, in the order of their indices 0 to 7.\<close>

definition neighborhoods :: "string list" where
  "neighborhoods =
     [''000'', ''001'', ''010'', ''011'', ''100'', ''101'', ''110'', ''111'']"

text \<open>A rule table is total: each neighbourhood has one successor symbol.\<close>

definition rule_table :: "rule \<Rightarrow> bool" where
  "rule_table rule =
     list_all (\<lambda>pat. rule pat = Some ''0'' \<or> rule pat = Some ''1'') neighborhoods"

section \<open>Binary digits and the entries of the rule table\<close>

lemma bin_digits_nonempty: "bin_digits m \<noteq> []"
  by (subst bin_digits.simps) simp

lemma bin_digits_bound: "m < 2 ^ length (bin_digits m)"
proof (induction m rule: bin_digits.induct)
  case (1 n)
  show ?case
  proof (cases "n < 2")
    case True
    then show ?thesis by (subst bin_digits.simps) simp
  next
    case False
    with 1 have "n div 2 < 2 ^ length (bin_digits (n div 2))" by simp
    then have "n < 2 * 2 ^ length (bin_digits (n div 2))" by linarith
    with False show ?thesis by (subst bin_digits.simps) simp
  qed
qed

lemma rev_bin_digits_nth:
  "i < length (bin_digits m) \<Longrightarrow> rev (bin_digits m) ! i = bit_char (bit m i)"
proof (induction m arbitrary: i rule: bin_digits.induct)
  case (1 n)
  show ?case
  proof (cases "n < 2")
    case True
    with 1(2) have "i = 0" by (subst (asm) bin_digits.simps) simp
    with True show ?thesis by (subst bin_digits.simps) (simp add: bit_0)
  next
    case False
    show ?thesis
    proof (cases i)
      case 0
      with False show ?thesis by (subst bin_digits.simps) (simp add: bit_0)
    next
      case (Suc j)
      with False 1(2) have "j < length (bin_digits (n div 2))"
        by (subst (asm) bin_digits.simps) simp
      with 1(1) False have "rev (bin_digits (n div 2)) ! j = bit_char (bit (n div 2) j)"
        by simp
      with False Suc show ?thesis by (subst bin_digits.simps) (simp add: bit_Suc)
    qed
  qed
qed

lemma bit_beyond_digits: "length (bin_digits m) \<le> i \<Longrightarrow> \<not> bit m i"
proof -
  assume "length (bin_digits m) \<le> i"
  then have "(2::nat) ^ length (bin_digits m) \<le> 2 ^ i" by simp
  with bin_digits_bound [of m] have "m < 2 ^ i" by linarith
  then show ?thesis by (simp add: bit_iff_odd)
qed

lemma rev_padded_nth:
  "i < k + length (bin_digits m) \<Longrightarrow>
   rev (replicate k (CHR ''0'') @ bin_digits m) ! i = bit_char (bit m i)"
  by (simp add: nth_append rev_bin_digits_nth bit_beyond_digits bit_char_def)

lemma format_b_nonneg:
  "0 \<le> n \<Longrightarrow> format_b w n = replicate (w - length (bin_digits (nat n))) (CHR ''0'') @ bin_digits (nat n)"
  by (simp add: format_b_def Let_def)

lemma rule_number_nth:
  assumes "0 \<le> n" "i < 8"
  shows "i < length (rev (format_b 8 n))" and "rev (format_b 8 n) ! i = bit_char (bit n i)"
proof -
  let ?d = "bin_digits (nat n)"
  from assms(2) have i: "i < (8 - length ?d) + length ?d" by linarith
  then show "i < length (rev (format_b 8 n))" using assms(1) by (simp add: format_b_nonneg)
  from assms(1) have "bit (nat n) i = bit n i" by (simp add: bit_nat_iff)
  with rev_padded_nth [OF i] assms(1) show "rev (format_b 8 n) ! i = bit_char (bit n i)"
    by (simp add: format_b_nonneg)
qed

lemma replicate_2: "replicate 2 c = [c, c]"
  by (simp add: numeral_2_eq_2)

lemma format_b_3:
  "format_b 3 0 = ''000''" "format_b 3 1 = ''001''" "format_b 3 2 = ''010''"
  "format_b 3 3 = ''011''" "format_b 3 4 = ''100''" "format_b 3 5 = ''101''"
  "format_b 3 6 = ''110''" "format_b 3 7 = ''111''"
  by (simp_all add: format_b_def bin_digits.simps bit_char_def replicate_2)

lemma upt_8: "[0..<8] = [0, 1, 2, 3, 4, 5, 6, 7]"
  by (simp add: upt_rec)

lemma rule_entries_8:
  assumes "8 \<le> length rn"
  shows "rule_entries rn [0..<8] m =
    Inr (m(''000'' \<mapsto> [rn ! 0], ''001'' \<mapsto> [rn ! 1], ''010'' \<mapsto> [rn ! 2], ''011'' \<mapsto> [rn ! 3],
           ''100'' \<mapsto> [rn ! 4], ''101'' \<mapsto> [rn ! 5], ''110'' \<mapsto> [rn ! 6], ''111'' \<mapsto> [rn ! 7]))"
  using assms by (auto simp: upt_8 getitem_def format_b_3)

lemma format_b_length: "w \<le> length (format_b w n)"
  using bin_digits_nonempty [of "nat \<bar>n\<bar>"] by (auto simp: format_b_def Let_def)

lemma get_rule_eq:
  "get_rule n = (let rn = rev (format_b 8 n) in
    Inr (Map.empty(''000'' \<mapsto> [rn ! 0], ''001'' \<mapsto> [rn ! 1], ''010'' \<mapsto> [rn ! 2], ''011'' \<mapsto> [rn ! 3],
           ''100'' \<mapsto> [rn ! 4], ''101'' \<mapsto> [rn ! 5], ''110'' \<mapsto> [rn ! 6], ''111'' \<mapsto> [rn ! 7])))"
  using format_b_length [of 8 n] by (simp add: get_rule_def Let_def rule_entries_8)

lemma dom_rule_8:
  "dom (Map.empty(''000'' \<mapsto> v0, ''001'' \<mapsto> v1, ''010'' \<mapsto> v2, ''011'' \<mapsto> v3,
           ''100'' \<mapsto> v4, ''101'' \<mapsto> v5, ''110'' \<mapsto> v6, ''111'' \<mapsto> v7)) = set neighborhoods"
  by (auto simp: neighborhoods_def)

lemma get_rule_nonneg:
  assumes "0 \<le> n"
  shows "get_rule n =
    Inr (Map.empty(''000'' \<mapsto> [bit_char (bit n 0)], ''001'' \<mapsto> [bit_char (bit n 1)],
           ''010'' \<mapsto> [bit_char (bit n 2)], ''011'' \<mapsto> [bit_char (bit n 3)],
           ''100'' \<mapsto> [bit_char (bit n 4)], ''101'' \<mapsto> [bit_char (bit n 5)],
           ''110'' \<mapsto> [bit_char (bit n 6)], ''111'' \<mapsto> [bit_char (bit n 7)]))"
  using assms by (simp add: get_rule_eq Let_def rule_number_nth(2))

section \<open>The rule table of \<open>get_rule\<close>\<close>

text \<open>
  Claim C2. For a rule number between 0 and 255, \<open>get_rule\<close> returns a table whose
  keys are exactly the eight neighbourhoods; the neighbourhood with the symbols \<open>a b c\<close>,
  read as the binary number \<open>4a + 2b + c\<close> with the first symbol most significant,
  is mapped to the one symbol that is bit \<open>4a + 2b + c\<close> of the rule number, counted
  from the least significant bit.
\<close>
theorem get_rule_total_bits:
  assumes "0 \<le> n" and "n \<le> 255"
  shows "\<exists>rule. get_rule n = Inr rule \<and> dom rule = set neighborhoods \<and>
     (\<forall>a b c. rule [bit_char a, bit_char b, bit_char c] =
        Some [bit_char (bit n (4 * of_bool a + 2 * of_bool b + of_bool c))])"
proof -
  let ?rule = "Map.empty(''000'' \<mapsto> [bit_char (bit n 0)], ''001'' \<mapsto> [bit_char (bit n 1)],
           ''010'' \<mapsto> [bit_char (bit n 2)], ''011'' \<mapsto> [bit_char (bit n 3)],
           ''100'' \<mapsto> [bit_char (bit n 4)], ''101'' \<mapsto> [bit_char (bit n 5)],
           ''110'' \<mapsto> [bit_char (bit n 6)], ''111'' \<mapsto> [bit_char (bit n 7)])"
  have ret: "get_rule n = Inr ?rule"
    using assms(1) by (rule get_rule_nonneg)
  have keys: "dom ?rule = set neighborhoods"
    by (rule dom_rule_8)
  have succ: "?rule [bit_char a, bit_char b, bit_char c] =
        Some [bit_char (bit n (4 * of_bool a + 2 * of_bool b + of_bool c))]" for a b c
    by (cases a; cases b; cases c)
      (simp_all add: bit_char_def numeral_3_eq_3 [symmetric] numeral_2_eq_2 [symmetric])
  from ret keys succ show ?thesis by blast
qed

theorem get_rule_total_bits_witness:
  "(0::int) \<le> 90 \<and> (90::int) \<le> 255 \<and>
   (\<exists>rule. get_rule 90 = Inr rule \<and> rule ''110'' = Some ''1'' \<and> rule ''111'' = Some ''0'')"
proof -
  from get_rule_total_bits [of 90] obtain rule where
    r: "get_rule 90 = Inr rule" and
    s: "\<And>a b c. rule [bit_char a, bit_char b, bit_char c] =
        Some [bit_char (bit (90::int) (4 * of_bool a + 2 * of_bool b + of_bool c))]"
    by auto
  from s [of True True False] have "rule ''110'' = Some ''1''"
    by (simp add: bit_char_def bit_iff_odd)
  moreover from s [of True True True] have "rule ''111'' = Some ''0''"
    by (simp add: bit_char_def bit_iff_odd)
  ultimately show ?thesis using r by simp
qed

text \<open>
  Claim C5. The table of rule 90 has exactly the eight neighbourhoods as keys and maps
  111 to 0, 110 to 1, 101 to 0, 100 to 1, 011 to 1, 010 to 0, 001 to 1 and 000 to 0.
\<close>
theorem get_rule_90:
  "\<exists>rule. get_rule 90 = Inr rule \<and> dom rule = set neighborhoods \<and>
     rule ''111'' = Some ''0'' \<and> rule ''110'' = Some ''1'' \<and> rule ''101'' = Some ''0'' \<and>
     rule ''100'' = Some ''1'' \<and> rule ''011'' = Some ''1'' \<and> rule ''010'' = Some ''0'' \<and>
     rule ''001'' = Some ''1'' \<and> rule ''000'' = Some ''0''"
  by (auto simp: get_rule_nonneg neighborhoods_def bit_char_def bit_iff_odd)

lemma bit_mod_256: "i < 8 \<Longrightarrow> bit (n mod 256) i = bit (n::int) i"
proof -
  assume "i < 8"
  have "n mod 256 = take_bit 8 n" by (simp add: take_bit_eq_mod)
  with \<open>i < 8\<close> show ?thesis by (simp add: bit_take_bit_iff)
qed

text \<open>
  Claim C10. For a non-negative rule number, \<open>get_rule\<close> raises nothing and returns
  the table of the number modulo 256: the digits beyond the eighth are never read. The
  number 901 of the list of interesting rules gives the table of rule 133.
\<close>
theorem get_rule_mod_256:
  assumes "0 \<le> n"
  shows "\<exists>rule. get_rule n = Inr rule \<and> get_rule (n mod 256) = Inr rule"
proof -
  have "0 \<le> n mod 256" by simp
  then have "get_rule (n mod 256) = get_rule n"
    using assms by (simp add: get_rule_nonneg bit_mod_256)
  with get_rule_nonneg [OF assms] show ?thesis by simp
qed

theorem get_rule_mod_256_witness:
  "(0::int) \<le> 901 \<and> (901::int) mod 256 = 133 \<and>
   (\<exists>rule. get_rule 901 = Inr rule \<and> get_rule 133 = Inr rule)"
  using get_rule_mod_256 [of 901] by simp

text \<open>
  Outside the range 0 to 255 the function checks nothing. For 901 it returns the table of
  rule 133. For -5 the formatted string is \<open>-0000101\<close>, and the table maps the
  neighbourhood 111 to the sign character.
\<close>
theorem get_rule_out_of_range_counterexample:
  "\<not> isl (get_rule 901) \<and>
   map (projr (get_rule 901)) neighborhoods =
     [Some ''1'', Some ''0'', Some ''1'', Some ''0'', Some ''0'', Some ''0'', Some ''0'', Some ''1''] \<and>
   \<not> isl (get_rule (- 5)) \<and>
   map (projr (get_rule (- 5))) neighborhoods =
     [Some ''1'', Some ''0'', Some ''1'', Some ''0'', Some ''0'', Some ''0'', Some ''0'', Some ''-'']"
  by code_simp

text \<open>
  Claim C6, as the code behaves: for a rule number below 0 or above 255, \<open>get_rule\<close>
  raises no error and returns a table with all eight neighbourhoods as keys; above 255
  it is the table of the number modulo 256.
\<close>
theorem get_rule_out_of_range:
  assumes "n < 0 \<or> 255 < n"
  shows "\<exists>rule. get_rule n = Inr rule \<and> dom rule = set neighborhoods \<and>
           (255 < n \<longrightarrow> get_rule (n mod 256) = Inr rule)"
proof -
  have "\<exists>rule. get_rule n = Inr rule \<and> dom rule = set neighborhoods"
    by (simp add: get_rule_eq Let_def dom_rule_8 del: dom_fun_upd)
  then obtain rule where r: "get_rule n = Inr rule" and d: "dom rule = set neighborhoods"
    by blast
  have "get_rule (n mod 256) = Inr rule" if "255 < n"
  proof -
    from that have "0 \<le> n" by simp
    moreover have "0 \<le> n mod 256" by simp
    ultimately have "get_rule (n mod 256) = get_rule n"
      by (simp add: get_rule_nonneg bit_mod_256)
    with r show ?thesis by simp
  qed
  with r d show ?thesis by blast
qed

theorem get_rule_out_of_range_witness:
  "((256::int) < 0 \<or> (255::int) < 256) \<and>
   (\<exists>rule. get_rule 256 = Inr rule \<and> dom rule = set neighborhoods \<and> get_rule 0 = Inr rule)"
  using get_rule_out_of_range [of 256] by simp

section \<open>One step of the automaton\<close>

lemma length_window: "length (window xs 3) = length xs - 2"
  by (simp add: window_def)

lemma window_short: "length xs < 3 \<Longrightarrow> window xs 3 = []"
  by (simp add: window_def)

lemma configuration_iff:
  "configuration s \<longleftrightarrow> (\<forall>c\<in>set s. c = CHR ''0'' \<or> c = CHR ''1'')"
  by (simp add: configuration_def list_all_iff)

lemma rule_table_iff:
  "rule_table rule \<longleftrightarrow> (\<forall>pat\<in>set neighborhoods. rule pat = Some ''0'' \<or> rule pat = Some ''1'')"
  by (simp add: rule_table_def list_all_iff)

lemma three_symbols_neighborhood:
  assumes "length pat = 3" and "configuration pat"
  shows "pat \<in> set neighborhoods"
proof -
  from assms(1) obtain a b c where pat: "pat = [a, b, c]"
    by (auto simp: numeral_3_eq_3 length_Suc_conv)
  from assms(2) have "a = CHR ''0'' \<or> a = CHR ''1''" "b = CHR ''0'' \<or> b = CHR ''1''"
    "c = CHR ''0'' \<or> c = CHR ''1''"
    unfolding pat by (simp_all add: configuration_def)
  then show ?thesis
    unfolding pat by (elim disjE) (simp_all add: neighborhoods_def)
qed

lemma window_neighborhood:
  assumes "configuration state" and "pat \<in> set (window state 3)"
  shows "pat \<in> set neighborhoods"
proof -
  from assms(2) obtain i where "i < length state - 2" and pat: "pat = take 3 (drop i state)"
    by (auto simp: window_def)
  then have i: "i + 3 \<le> length state" by linarith
  from i pat have "length pat = 3" by simp
  moreover have "set pat \<subseteq> set state"
    unfolding pat by (meson order_trans set_take_subset set_drop_subset)
  with assms(1) have "configuration pat" by (auto simp: configuration_iff)
  ultimately show ?thesis by (rule three_symbols_neighborhood)
qed

lemma lookup_each_total:
  assumes "rule_table rule" and "\<forall>pat\<in>set patterns. pat \<in> set neighborhoods"
  shows "\<exists>vs. lookup_each rule patterns = Inr vs \<and> length vs = length patterns \<and>
           (\<forall>v\<in>set vs. v = ''0'' \<or> v = ''1'')"
  using assms(2)
proof (induction patterns)
  case Nil
  then show ?case by simp
next
  case (Cons pat patterns)
  from Cons.prems have "\<forall>pat\<in>set patterns. pat \<in> set neighborhoods" by simp
  from Cons.IH [OF this] obtain vs where
    vs: "lookup_each rule patterns = Inr vs" "length vs = length patterns"
      "\<forall>v\<in>set vs. v = ''0'' \<or> v = ''1''"
    by blast
  from Cons.prems have "pat \<in> set neighborhoods" by simp
  with assms(1) have "rule pat = Some ''0'' \<or> rule pat = Some ''1''"
    unfolding rule_table_iff by blast
  then show ?case
  proof
    assume "rule pat = Some ''0''"
    with vs show ?thesis by simp
  next
    assume "rule pat = Some ''1''"
    with vs show ?thesis by simp
  qed
qed

lemma length_concat_singletons:
  "\<forall>v\<in>set vs. length v = 1 \<Longrightarrow> length (concat vs) = length vs"
  by (induction vs) simp_all

lemma configuration_concat:
  "\<forall>v\<in>set vs. configuration v \<Longrightarrow> configuration (concat vs)"
  by (induction vs) (simp_all add: configuration_def)

lemma concat_symbols:
  assumes "\<forall>v\<in>set vs. v = ''0'' \<or> v = ''1''"
  shows "length (concat vs) = length vs" and "configuration (concat vs)"
proof -
  have "length v = 1 \<and> configuration v" if "v = ''0'' \<or> v = ''1''" for v
    using that by (rule disjE) (simp_all add: configuration_def)
  with assms have "\<forall>v\<in>set vs. length v = 1" and "\<forall>v\<in>set vs. configuration v"
    by blast+
  then show "length (concat vs) = length vs" and "configuration (concat vs)"
    by (simp_all add: length_concat_singletons configuration_concat)
qed

lemma next_state_total:
  assumes "rule_table rule" and "configuration state"
  shows "\<exists>vs. lookup_each rule (window state 3) = Inr vs \<and> length (concat vs) = length state - 2 \<and>
           configuration (concat vs) \<and> next_state rule state = Inr (''0'' @ concat vs @ ''0'')"
proof -
  from assms(2) have "\<forall>pat\<in>set (window state 3). pat \<in> set neighborhoods"
    by (simp add: window_neighborhood)
  from lookup_each_total [OF assms(1) this] obtain vs where
    vs: "lookup_each rule (window state 3) = Inr vs" "length vs = length (window state 3)"
      "\<forall>v\<in>set vs. v = ''0'' \<or> v = ''1''"
    by blast
  from concat_symbols [OF vs(3)] vs(1,2) show ?thesis
    by (simp add: next_state_def length_window)
qed

lemma next_state_configuration:
  assumes "rule_table rule" and "configuration state"
  shows "\<exists>state'. next_state rule state = Inr state' \<and> configuration state' \<and>
           length state' = length state - 2 + 2"
proof -
  from next_state_total [OF assms] obtain vs where
    "length (concat vs) = length state - 2" "configuration (concat vs)"
    "next_state rule state = Inr (''0'' @ concat vs @ ''0'')"
    by blast
  then show ?thesis by (simp add: configuration_def)
qed

lemma next_state_boundary:
  "next_state rule state = Inr state' \<Longrightarrow> \<exists>interior. state' = ''0'' @ interior @ ''0''"
  by (auto simp: next_state_def split: sum.splits)

lemma next_state_short: "length state < 3 \<Longrightarrow> next_state rule state = Inr ''00''"
  by (simp add: next_state_def window_short)

text \<open>The list is only ever extended: the loop returns its argument followed by the new states.\<close>

lemma generate_loop_extends:
  "generate_loop rule gens state states = Inr out \<Longrightarrow>
   \<exists>new. out = states @ new \<and> length new = gens \<and>
     (\<forall>s\<in>set new. \<exists>interior. s = ''0'' @ interior @ ''0'')"
proof (induction gens arbitrary: state states)
  case 0
  then show ?case by simp
next
  case (Suc gens)
  from Suc.prems obtain state' where
    st: "next_state rule state = Inr state'" and
    rest: "generate_loop rule gens state' (states @ [state']) = Inr out"
    by (auto split: sum.splits)
  from Suc.IH [OF rest] obtain new where
    new: "out = (states @ [state']) @ new" "length new = gens"
      "\<forall>s\<in>set new. \<exists>interior. s = ''0'' @ interior @ ''0''"
    by blast
  from next_state_boundary [OF st] new have
    "out = states @ (state' # new) \<and> length (state' # new) = Suc gens \<and>
     (\<forall>s\<in>set (state' # new). \<exists>interior. s = ''0'' @ interior @ ''0'')"
    by simp
  then show ?case by blast
qed

lemma generate_loop_total:
  assumes "rule_table rule"
  shows "configuration state \<Longrightarrow>
   \<exists>new. generate_loop rule gens state states = Inr (states @ new) \<and> length new = gens \<and>
     (\<forall>s\<in>set new. configuration s \<and> length s = length state - 2 + 2)"
proof (induction gens arbitrary: state states)
  case 0
  then show ?case by simp
next
  case (Suc gens)
  from next_state_configuration [OF assms Suc.prems] obtain state' where
    st: "next_state rule state = Inr state'" "configuration state'"
      "length state' = length state - 2 + 2"
    by blast
  from Suc.IH [OF st(2), of "states @ [state']"] obtain new where
    new: "generate_loop rule gens state' (states @ [state']) = Inr ((states @ [state']) @ new)"
      "length new = gens" "\<forall>s\<in>set new. configuration s \<and> length s = length state' - 2 + 2"
    by blast
  from st new have
    "generate_loop rule (Suc gens) state states = Inr (states @ (state' # new)) \<and>
     length (state' # new) = Suc gens \<and>
     (\<forall>s\<in>set (state' # new). configuration s \<and> length s = length state - 2 + 2)"
    by simp
  then show ?case by blast
qed

lemma generate_loop_short:
  "length state < 3 \<Longrightarrow>
   generate_loop rule gens state states = Inr (states @ replicate gens ''00'')"
proof (induction gens arbitrary: state states)
  case 0
  then show ?case by simp
next
  case (Suc gens)
  have "generate_loop rule gens ''00'' (states @ [''00'']) =
        Inr ((states @ [''00'']) @ replicate gens ''00'')"
    by (rule Suc.IH) simp
  with Suc.prems show ?case by (simp add: next_state_short replicate_app_Cons_same)
qed

section \<open>The sequence of states of \<open>generate_pattern\<close>\<close>

text \<open>Every table that \<open>get_rule\<close> builds from a non-negative number is a rule table.\<close>

lemma rule_table_get_rule:
  "0 \<le> n \<Longrightarrow> \<exists>rule. get_rule n = Inr rule \<and> rule_table rule"
  by (simp add: get_rule_nonneg rule_table_def neighborhoods_def bit_char_def)

lemma rule_table_get_rule_90: "rule_table (projr (get_rule 90))"
  using rule_table_get_rule [of 90] by auto

lemma rule_table_get_rule_30: "rule_table (projr (get_rule 30))"
  using rule_table_get_rule [of 30] by auto

lemma generate_pattern_total:
  assumes "rule_table rule" and "configuration state"
  shows "\<exists>new. generate_pattern state rule max_gen = Inr (state # new) \<and>
           length new = nat max_gen \<and> (\<forall>s\<in>set new. length s = length state - 2 + 2)"
proof -
  from generate_loop_total [OF assms, of "nat max_gen" "[state]"] obtain new where
    "generate_loop rule (nat max_gen) state [state] = Inr ([state] @ new)"
    "length new = nat max_gen" "\<forall>s\<in>set new. configuration s \<and> length s = length state - 2 + 2"
    by blast
  then show ?thesis by (auto simp: generate_pattern_def)
qed

text \<open>
  The text notebook prints the states that the animation notebook collects: a run of
  \<open>generate_pattern\<close> that returns a list is a run of the text variant that prints
  this list and raises nothing.
\<close>

lemma print_loop_generate_loop:
  "generate_loop rule gens state states = Inr (states @ new) \<Longrightarrow>
   print_loop rule gens state printed = (printed @ state # new, None)"
proof (induction gens arbitrary: state states new printed)
  case 0
  then show ?case by simp
next
  case (Suc gens)
  from Suc.prems obtain state' where
    st: "next_state rule state = Inr state'" and
    rest: "generate_loop rule gens state' (states @ [state']) = Inr (states @ new)"
    by (auto split: sum.splits)
  from generate_loop_extends [OF rest] obtain new' where
    new': "states @ new = (states @ [state']) @ new'"
    by blast
  then have new: "new = state' # new'" by simp
  from rest new' have "generate_loop rule gens state' (states @ [state']) =
      Inr ((states @ [state']) @ new')"
    by simp
  from Suc.IH [OF this, of "printed @ [state]"] st new show ?case by simp
qed

lemma generate_pattern_text_states:
  assumes "generate_pattern state rule max_gen = Inr states"
  shows "generate_pattern_text state rule max_gen = (states, None)"
proof -
  from assms have g: "generate_loop rule (nat max_gen) state [state] = Inr states"
    by (simp add: generate_pattern_def)
  from generate_loop_extends [OF g] obtain new where new: "states = [state] @ new"
    by blast
  with g have "generate_loop rule (nat max_gen) state [state] = Inr ([state] @ new)"
    by simp
  from print_loop_generate_loop [OF this, of "[]"] new show ?thesis
    by (simp add: generate_pattern_text_def)
qed

text \<open>
  A step replaces a state by one of the same length: the windows are two fewer than the
  cells, and two cells are added. From 010, rule 90 gives 000 after one generation, of
  length 3 and not 5.
\<close>
theorem generate_pattern_lengths_counterexample:
  "generate_pattern ''010'' (projr (get_rule 90)) 1 = Inr [''010'', ''000''] \<and>
   length ([''010'', ''000''] ! 1) \<noteq> length ''010'' + 2 * 1"
  by code_simp

text \<open>
  Claim C1, as the code behaves: for a rule table, a configuration of length at least 3
  and a generation count \<open>max_gen\<close> of at least 0, \<open>generate_pattern\<close> returns
  \<open>max_gen + 1\<close> states, and element \<open>k\<close> of them, as the last one, has the length of
  the initial configuration. A configuration of length 300 run for 200 generations ends
  with a state of length 300.
\<close>
theorem generate_pattern_lengths:
  assumes "rule_table rule" and "configuration state" and "3 \<le> length state"
    and "0 \<le> max_gen" and "k \<le> nat max_gen"
  shows "\<exists>states. generate_pattern state rule max_gen = Inr states \<and>
           length states = nat max_gen + 1 \<and>
           length (states ! k) = length state \<and> length (last states) = length state"
proof -
  from generate_pattern_total [OF assms(1,2), of max_gen] obtain new where
    ret: "generate_pattern state rule max_gen = Inr (state # new)" and
    len: "length new = nat max_gen" and
    each: "\<forall>s\<in>set new. length s = length state - 2 + 2"
    by blast
  from assms(3) have same: "length state - 2 + 2 = length state" by simp
  from each same have all: "\<forall>s\<in>set (state # new). length s = length state" by simp
  from assms(5) len have "k < length (state # new)" by simp
  then have "(state # new) ! k \<in> set (state # new)" by (rule nth_mem)
  with all have k: "length ((state # new) ! k) = length state" by blast
  have "last (state # new) \<in> set (state # new)" by (rule last_in_set) simp
  with all have l: "length (last (state # new)) = length state" by blast
  from ret len k l show ?thesis by simp
qed

theorem generate_pattern_lengths_witness:
  "rule_table (projr (get_rule 30)) \<and> configuration (replicate 300 (CHR ''1'')) \<and>
   3 \<le> length (replicate 300 (CHR ''1'')) \<and> (0::int) \<le> 200 \<and> (200::nat) \<le> nat 200 \<and>
   (\<exists>states. generate_pattern (replicate 300 (CHR ''1'')) (projr (get_rule 30)) 200 = Inr states \<and>
      length states = 201 \<and> length (states ! 200) = 300 \<and> length (last states) = 300)"
proof -
  have c: "configuration (replicate 300 (CHR ''1''))"
    by (simp add: configuration_iff)
  have l: "3 \<le> length (replicate 300 (CHR ''1''))" by simp
  from generate_pattern_lengths [OF rule_table_get_rule_30 c l, of 200 200]
  show ?thesis using rule_table_get_rule_30 c by simp
qed

text \<open>
  Claim C3. For a rule table, a configuration and a generation count \<open>max_gen\<close> of at
  least 0, \<open>generate_pattern\<close> returns a list of \<open>max_gen + 1\<close> states whose first
  element is the initial configuration; for \<open>max_gen = 0\<close> the list holds that
  configuration only.
\<close>
theorem generate_pattern_sequence:
  assumes "rule_table rule" and "configuration state" and "0 \<le> max_gen"
  shows "\<exists>states. generate_pattern state rule max_gen = Inr states \<and>
           int (length states) = max_gen + 1 \<and> states ! 0 = state \<and>
           (max_gen = 0 \<longrightarrow> states = [state])"
proof -
  from generate_pattern_total [OF assms(1,2), of max_gen] obtain new where
    "generate_pattern state rule max_gen = Inr (state # new)" "length new = nat max_gen"
    by blast
  with assms(3) show ?thesis by auto
qed

theorem generate_pattern_sequence_witness:
  "rule_table (projr (get_rule 90)) \<and> configuration ''00100'' \<and> (0::int) \<le> 2 \<and>
   (\<exists>states. generate_pattern ''00100'' (projr (get_rule 90)) 2 = Inr states \<and>
      int (length states) = 2 + 1 \<and> states ! 0 = ''00100'')"
proof -
  have c: "configuration ''00100''" by (simp add: configuration_def)
  from generate_pattern_sequence [OF rule_table_get_rule_90 c, of 2]
  show ?thesis using rule_table_get_rule_90 c by simp
qed

text \<open>
  Claim C4. For a rule table and a configuration of length \<open>L\<close> at least 3, one step
  takes \<open>L - 2\<close> windows, joins their \<open>L - 2\<close> successors and adds a 0 on either
  side: the next state has length \<open>L\<close>.
\<close>
theorem next_state_length:
  assumes "rule_table rule" and "configuration state" and "3 \<le> length state"
  shows "length (window state 3) = length state - 2 \<and>
     (\<exists>vs. lookup_each rule (window state 3) = Inr vs \<and> length (concat vs) = length state - 2 \<and>
        next_state rule state = Inr (''0'' @ concat vs @ ''0'') \<and>
        length (''0'' @ concat vs @ ''0'') = length state)"
proof -
  from next_state_total [OF assms(1,2)] obtain vs where
    vs: "lookup_each rule (window state 3) = Inr vs" "length (concat vs) = length state - 2"
      "next_state rule state = Inr (''0'' @ concat vs @ ''0'')"
    by blast
  from vs(2) assms(3) have "length (''0'' @ concat vs @ ''0'') = length state" by simp
  with vs show ?thesis by (auto simp: length_window)
qed

theorem next_state_length_witness:
  "rule_table (projr (get_rule 90)) \<and> configuration ''01101'' \<and> 3 \<le> length ''01101'' \<and>
   length (window ''01101'' 3) = length ''01101'' - 2 \<and>
   (\<exists>vs. lookup_each (projr (get_rule 90)) (window ''01101'' 3) = Inr vs \<and>
      length (concat vs) = length ''01101'' - 2 \<and>
      next_state (projr (get_rule 90)) ''01101'' = Inr (''0'' @ concat vs @ ''0'') \<and>
      length (''0'' @ concat vs @ ''0'') = length ''01101'')"
proof -
  have c: "configuration ''01101''" by (simp add: configuration_def)
  have l: "3 \<le> length ''01101''" by simp
  from next_state_length [OF rule_table_get_rule_90 c l]
  show ?thesis using rule_table_get_rule_90 c by simp
qed

text \<open>
  A state shorter than 3 has no window; the join of nothing is the empty string, and the
  step yields 00 without an error. The state 00 is appended to the list.
\<close>
theorem insufficient_width_counterexample:
  "next_state (projr (get_rule 90)) ''01'' = Inr ''00'' \<and>
   generate_pattern ''01'' (projr (get_rule 90)) 1 = Inr [''01'', ''00'']"
  by code_simp

text \<open>
  Claim C7, as the code behaves: for a state of length less than 3 and any rule, a step
  raises no error and yields the state 00, and \<open>generate_pattern\<close> returns the initial
  state followed by one state 00 for each generation.
\<close>
theorem short_configuration_step:
  assumes "length state < 3"
  shows "next_state rule state = Inr ''00'' \<and>
         generate_pattern state rule max_gen = Inr (state # replicate (nat max_gen) ''00'')"
  using assms by (simp add: next_state_short generate_pattern_def generate_loop_short)

theorem short_configuration_step_witness:
  "length ''1'' < 3 \<and> next_state Map.empty ''1'' = Inr ''00'' \<and>
   generate_pattern ''1'' Map.empty 2 = Inr [''1'', ''00'', ''00'']"
  using short_configuration_step [of "''1''" Map.empty 2] by (simp add: numeral_2_eq_2)

text \<open>
  A negative generation count gives an empty range: the loop body never runs and the
  list of the initial state alone is returned.
\<close>
theorem negative_generation_count_counterexample:
  "generate_pattern ''010'' (projr (get_rule 90)) (- 1) = Inr [''010'']"
  by (simp add: generate_pattern_def)

text \<open>
  Claim C8, as the code behaves: for a generation count below 0, \<open>generate_pattern\<close>
  raises no error and returns the list holding the initial state only, whatever the state
  and the rule are.
\<close>
theorem negative_generation_count:
  assumes "max_gen < 0"
  shows "generate_pattern state rule max_gen = Inr [state]"
  using assms by (simp add: generate_pattern_def)

theorem negative_generation_count_witness:
  "(- 3 :: int) < 0 \<and> generate_pattern ''0110'' Map.empty (- 3) = Inr [''0110'']"
  using negative_generation_count [of "- 3" "''0110''" Map.empty] by simp

text \<open>
  Claim C9. For any rule and any initial state, every element \<open>k \<ge> 1\<close> of a list that
  \<open>generate_pattern\<close> returns begins and ends with the character 0: each step puts a 0
  on either side of the joined successors.
\<close>
theorem boundary_off:
  assumes "generate_pattern state rule max_gen = Inr states" and "1 \<le> k" and "k < length states"
  shows "\<exists>interior. states ! k = ''0'' @ interior @ ''0''"
proof -
  from assms(1) have "generate_loop rule (nat max_gen) state [state] = Inr states"
    by (simp add: generate_pattern_def)
  from generate_loop_extends [OF this] obtain new where
    new: "states = [state] @ new" and
    off: "\<forall>s\<in>set new. \<exists>interior. s = ''0'' @ interior @ ''0''"
    by blast
  from assms(2) obtain j where k: "k = Suc j" by (cases k) simp_all
  with assms(3) new have "j < length new" by simp
  then have "new ! j \<in> set new" by (rule nth_mem)
  moreover from new k have "states ! k = new ! j" by simp
  ultimately show ?thesis using off by simp
qed

theorem boundary_off_witness:
  "generate_pattern ''0010100'' (projr (get_rule 90)) 2 =
     Inr [''0010100'', ''0100010'', ''0010100''] \<and>
   (1::nat) \<le> 1 \<and> 1 < length [''0010100'', ''0100010'', ''0010100''] \<and>
   (\<exists>interior. [''0010100'', ''0100010'', ''0010100''] ! 1 = ''0'' @ interior @ ''0'')"
proof -
  have g: "generate_pattern ''0010100'' (projr (get_rule 90)) 2 =
      Inr [''0010100'', ''0100010'', ''0010100'']"
    by code_simp
  from boundary_off [OF g, of 1] show ?thesis using g by simp
qed

end
